theory Spec2Isabelle
  imports Complex_Main "HOL-Library.Word" "HOL-Library.Log_Nat"
begin

unbundle bit_operations_syntax

section \<open>Render-time instancing: the interface headers\<close>

text \<open>
  The repository is a set of C++ interface headers: \<^verbatim>\<open>RenderTimeInstancing.h\<close> (in several
  revisions) and \<^verbatim>\<open>tyParticleObjectExt_v2.h\<close>. Almost every member function is pure
  virtual. The code that has a body, and that this theory embeds, is
  \<^item> the typed custom-data readers of \<^verbatim>\<open>RenderInstanceTarget\<close>,
  \<^item> the \<^verbatim>\<open>DataFlags\<close> enumerators and the two ways of testing them,
  \<^item> the two \<^verbatim>\<open>Iterator\<close> classes with \<^verbatim>\<open>begin()\<close> and \<^verbatim>\<open>end()\<close>,
  \<^item> the \<^verbatim>\<open>tyVector\<close> dynamic array and the constructor of \<^verbatim>\<open>tyInstanceInfo\<close>.
  A virtual function without a body is a field of the record that models its class.
  The headers hold no implementation of \<^verbatim>\<open>UpdateInstanceData\<close>, \<^verbatim>\<open>ReleaseInstanceData\<close>,
  \<^verbatim>\<open>GetChannels\<close>, \<^verbatim>\<open>GetChannelID\<close>, \<^verbatim>\<open>GetTMs\<close>, \<^verbatim>\<open>GetTM\<close>, \<^verbatim>\<open>GetVelocity\<close> or
  \<^verbatim>\<open>GetSpin\<close>: what they return is the business of the object that implements the
  interface, and this theory says nothing about it.
\<close>

subsection \<open>Machine types\<close>

type_synonym size_t = "64 word"
type_synonym ChannelID = "32 word"
type_synonym DataFlags = "32 word"

text \<open>A \<^verbatim>\<open>void *\<close> is an address; \<^verbatim>\<open>nullptr\<close> is address 0.\<close>

type_synonym ptr = "64 word"

definition nullptr :: ptr where
  "nullptr = 0"

subsection \<open>Value types of the SDK\<close>

text \<open>
  \<^verbatim>\<open>Point3\<close>, \<^verbatim>\<open>Color\<close> and \<^verbatim>\<open>Matrix3\<close> come from the 3ds Max SDK, which the
  headers include and do not define. A \<^verbatim>\<open>float\<close> is read as a real number: the readers
  below only copy floats and build the constant 0, which is exact.
  A \<^verbatim>\<open>Matrix3\<close> has four rows, each a \<^verbatim>\<open>Point3\<close>.
\<close>

datatype Point3 = Point3 real real real

datatype Color = Color real real real

datatype Matrix3 = Matrix3_rows Point3 Point3 Point3 Point3


text \<open>
  \<^verbatim>\<open>Matrix3()\<close>, the default constructor, belongs to the SDK as well. The headers
  hold nothing about the matrix it builds, so that matrix is a parameter of the reader that
  calls the constructor.
\<close>

subsection \<open>Typed loads through a raw pointer\<close>

text \<open>
  \<^verbatim>\<open>*((float *)p)\<close> reads the memory at \<^verbatim>\<open>p\<close> as a float, and likewise for the other
  types. The memory is a record of typed loads.
\<close>

record memory =
  float_at :: "ptr \<Rightarrow> real"
  Point3_at :: "ptr \<Rightarrow> Point3"
  Color_at :: "ptr \<Rightarrow> Color"
  Matrix3_at :: "ptr \<Rightarrow> Matrix3"

subsection \<open>RenderInstanceTarget\<close>

text \<open>
  \<^verbatim>\<open>GetCustomData\<close> is virtual with no body in the header: a field. Its documentation says
  that it returns \<^verbatim>\<open>nullptr\<close> for an invalid channel. \<^verbatim>\<open>GetID\<close> is pure virtual.
\<close>

record RenderInstanceTarget =
  GetCustomData :: "ChannelID \<Rightarrow> ptr"
  GetID :: "64 word"

text \<open>\<^verbatim>\<open>auto p = GetCustomData(channel); return p ? (*((float *)p)) : 0.0f;\<close>\<close>

definition GetCustomFloat :: "memory \<Rightarrow> RenderInstanceTarget \<Rightarrow> ChannelID \<Rightarrow> real" where
  "GetCustomFloat mem this channel =
     (let p = GetCustomData this channel
      in if p \<noteq> nullptr then float_at mem p else 0)"


text \<open>\<^verbatim>\<open>return p ? (*((Color *)p)) : Color(0.0f,0.0f,0.0f);\<close>\<close>

definition GetCustomColor :: "memory \<Rightarrow> RenderInstanceTarget \<Rightarrow> ChannelID \<Rightarrow> Color" where
  "GetCustomColor mem this channel =
     (let p = GetCustomData this channel
      in if p \<noteq> nullptr then Color_at mem p else Color 0 0 0)"

text \<open>
  \<^verbatim>\<open>return p ? (*((Matrix3 *)p)) : Matrix3();\<close> with the default-constructed matrix as
  the first argument.
\<close>

definition GetCustomTM :: "Matrix3 \<Rightarrow> memory \<Rightarrow> RenderInstanceTarget \<Rightarrow> ChannelID \<Rightarrow> Matrix3" where
  "GetCustomTM Matrix3_default mem this channel =
     (let p = GetCustomData this channel
      in if p \<noteq> nullptr then Matrix3_at mem p else Matrix3_default)"

subsection \<open>DataFlags\<close>


definition df_mesh :: DataFlags where
  "df_mesh = push_bit 0 1"

definition df_inode :: DataFlags where
  "df_inode = push_bit 1 1"

definition df_pluginMustDelete :: DataFlags where
  "df_pluginMustDelete = push_bit 31 1"




subsection \<open>RenderInstanceSource and RenderTimeInstancing\<close>

text \<open>
  All member functions of the two classes are pure virtual, apart from \<^verbatim>\<open>begin()\<close> and
  \<^verbatim>\<open>end()\<close>. A returned \<^verbatim>\<open>RenderInstanceSource *\<close> or \<^verbatim>\<open>RenderInstanceTarget *\<close> is
  modelled by the object it points to.
\<close>

record RenderInstanceSource =
  GetFlags :: DataFlags
  GetData :: ptr
  GetVelocityMapChannel :: "32 word"
  GetNumInstanceTargets :: size_t
  GetRenderInstanceTarget :: "size_t \<Rightarrow> RenderInstanceTarget"

record RenderTimeInstancing =
  GetNumInstanceSources :: size_t
  GetRenderInstanceSource :: "size_t \<Rightarrow> RenderInstanceSource"

subsection \<open>The Iterator classes\<close>

text \<open>
  \<^verbatim>\<open>RenderTimeInstancing::Iterator\<close> and \<^verbatim>\<open>RenderInstanceSource::Iterator\<close> have the same
  members, an index \<^verbatim>\<open>m_i\<close> and the container \<^verbatim>\<open>m_item\<close>, and the same operators; they
  differ in the container's type and in what \<^verbatim>\<open>operator*\<close> calls.
\<close>

record 'c Iterator =
  m_i :: size_t
  m_item :: 'c

text \<open>\<^verbatim>\<open>Iterator& operator++() { m_i++; return *this; }\<close>\<close>

definition Iterator_inc :: "'c Iterator \<Rightarrow> 'c Iterator" where
  "Iterator_inc it = it\<lparr>m_i := m_i it + 1\<rparr>"

text \<open>\<^verbatim>\<open>bool operator!=(const Iterator &iterator) { return m_i != iterator.m_i; }\<close>\<close>

definition Iterator_neq :: "'c Iterator \<Rightarrow> 'c Iterator \<Rightarrow> bool" where
  "Iterator_neq it iterator = (m_i it \<noteq> m_i iterator)"

text \<open>\<^verbatim>\<open>RenderInstanceSource *operator*() { return m_item->GetRenderInstanceSource(m_i); }\<close>\<close>

definition Instancing_deref :: "RenderTimeInstancing Iterator \<Rightarrow> RenderInstanceSource" where
  "Instancing_deref it = GetRenderInstanceSource (m_item it) (m_i it)"

text \<open>\<^verbatim>\<open>Iterator begin() { return Iterator(this); }\<close>, with \<^verbatim>\<open>m_i(0)\<close>.\<close>

definition Instancing_begin :: "RenderTimeInstancing \<Rightarrow> RenderTimeInstancing Iterator" where
  "Instancing_begin this = \<lparr>m_i = 0, m_item = this\<rparr>"

text \<open>\<^verbatim>\<open>Iterator end() { return Iterator(this, GetNumInstanceSources()); }\<close>\<close>

definition Instancing_end :: "RenderTimeInstancing \<Rightarrow> RenderTimeInstancing Iterator" where
  "Instancing_end this = \<lparr>m_i = GetNumInstanceSources this, m_item = this\<rparr>"

text \<open>\<^verbatim>\<open>RenderInstanceTarget *operator*() { return m_item->GetRenderInstanceTarget(m_i); }\<close>\<close>

definition Source_deref :: "RenderInstanceSource Iterator \<Rightarrow> RenderInstanceTarget" where
  "Source_deref it = GetRenderInstanceTarget (m_item it) (m_i it)"

definition Source_begin :: "RenderInstanceSource \<Rightarrow> RenderInstanceSource Iterator" where
  "Source_begin this = \<lparr>m_i = 0, m_item = this\<rparr>"

definition Source_end :: "RenderInstanceSource \<Rightarrow> RenderInstanceSource Iterator" where
  "Source_end this = \<lparr>m_i = GetNumInstanceTargets this, m_item = this\<rparr>"

text \<open>
  The range-based loop \<^verbatim>\<open>for (auto x : c) body\<close> that \<^verbatim>\<open>begin()\<close> and \<^verbatim>\<open>end()\<close> exist
  for: \<^verbatim>\<open>for (auto it = c.begin(), e = c.end(); it != e; ++it) { auto x = *it; body }\<close>.
  The body is a function from the element and the loop's state to the new state. The index
  is a 64-bit word, so the loop ends for every pair of iterators: the distance from
  \<^verbatim>\<open>it\<close> to \<^verbatim>\<open>e\<close>, modulo \<open>2 ^ 64\<close>, goes down by one in each round.
\<close>

function for_loop ::
  "('c Iterator \<Rightarrow> 'x) \<Rightarrow> ('x \<Rightarrow> 's \<Rightarrow> 's) \<Rightarrow> 'c Iterator \<Rightarrow> 'c Iterator \<Rightarrow> 's \<Rightarrow> 's" where
  "for_loop deref body it e s =
     (if Iterator_neq it e then for_loop deref body (Iterator_inc it) e (body (deref it) s) else s)"
  by pat_completeness auto
termination
proof (relation "measure (\<lambda>(deref, body, it, e, s). unat (m_i e - m_i it))", goal_cases)
  case 1
  show ?case by simp
next
  case (2 deref body it e s)
  then have nz: "m_i e - m_i it \<noteq> 0"
    by (simp add: Iterator_neq_def)
  have "unat (m_i e - (m_i it + 1)) = unat (m_i e - m_i it) - 1"
    using unat_minus_one [OF nz] by (simp only: diff_diff_add)
  moreover have "unat (m_i e - m_i it) \<noteq> 0"
    using nz by (simp add: unat_eq_0)
  ultimately show ?case
    by (simp add: Iterator_inc_def)
qed

declare for_loop.simps [simp del]

definition Instancing_range_for ::
  "(RenderInstanceSource \<Rightarrow> 's \<Rightarrow> 's) \<Rightarrow> RenderTimeInstancing \<Rightarrow> 's \<Rightarrow> 's" where
  "Instancing_range_for body this s =
     for_loop Instancing_deref body (Instancing_begin this) (Instancing_end this) s"

definition Source_range_for ::
  "(RenderInstanceTarget \<Rightarrow> 's \<Rightarrow> 's) \<Rightarrow> RenderInstanceSource \<Rightarrow> 's \<Rightarrow> 's" where
  "Source_range_for body this s =
     for_loop Source_deref body (Source_begin this) (Source_end this) s"

subsection \<open>The index-based loop, for comparison\<close>

text \<open>
  The loop that the range-based loop is compared with follows the wording of the
  specification, not code of the headers:
  \<^verbatim>\<open>for (size_t i = 0; i < n; i++) body(get(i))\<close>, with \<^verbatim>\<open>n\<close> the container's count.
\<close>

function index_loop ::
  "(size_t \<Rightarrow> 'x) \<Rightarrow> ('x \<Rightarrow> 's \<Rightarrow> 's) \<Rightarrow> size_t \<Rightarrow> size_t \<Rightarrow> 's \<Rightarrow> 's" where
  "index_loop get body i n s =
     (if i < n then index_loop get body (i + 1) n (body (get i) s) else s)"
  by pat_completeness auto
termination
proof (relation "measure (\<lambda>(get, body, i, n, s). unat (n - i))", goal_cases)
  case 1
  show ?case by simp
next
  case (2 get body i n s)
  then have nz: "n - i \<noteq> 0"
    by auto
  have "unat (n - (i + 1)) = unat (n - i) - 1"
    using unat_minus_one [OF nz] by (simp only: diff_diff_add)
  moreover have "unat (n - i) \<noteq> 0"
    using nz by (simp add: unat_eq_0)
  ultimately show ?case
    by simp
qed

declare index_loop.simps [simp del]

definition Instancing_index_loop ::
  "(RenderInstanceSource \<Rightarrow> 's \<Rightarrow> 's) \<Rightarrow> RenderTimeInstancing \<Rightarrow> 's \<Rightarrow> 's" where
  "Instancing_index_loop body this s =
     index_loop (GetRenderInstanceSource this) body 0 (GetNumInstanceSources this) s"

definition Source_index_loop ::
  "(RenderInstanceTarget \<Rightarrow> 's \<Rightarrow> 's) \<Rightarrow> RenderInstanceSource \<Rightarrow> 's \<Rightarrow> 's" where
  "Source_index_loop body this s =
     index_loop (GetRenderInstanceTarget this) body 0 (GetNumInstanceTargets this) s"

text \<open>The elements at the indices 0, 1, ..., n - 1, in that order.\<close>

definition sources_in_order :: "RenderTimeInstancing \<Rightarrow> RenderInstanceSource list" where
  "sources_in_order this =
     map (\<lambda>i. GetRenderInstanceSource this (of_nat i)) [0..<unat (GetNumInstanceSources this)]"

definition targets_in_order :: "RenderInstanceSource \<Rightarrow> RenderInstanceTarget list" where
  "targets_in_order this =
     map (\<lambda>i. GetRenderInstanceTarget this (of_nat i)) [0..<unat (GetNumInstanceTargets this)]"

text \<open>A loop body that records the element it is given.\<close>

definition visit :: "'x \<Rightarrow> 'x list \<Rightarrow> 'x list" where
  "visit x seen = seen @ [x]"

text \<open>Containers for the examples.\<close>

definition example_target :: "64 word \<Rightarrow> RenderInstanceTarget" where
  "example_target k = \<lparr>GetCustomData = (\<lambda>c. nullptr), GetID = k\<rparr>"

definition example_source :: "size_t \<Rightarrow> RenderInstanceSource" where
  "example_source i =
     \<lparr>GetFlags = df_mesh OR df_pluginMustDelete, GetData = 4096, GetVelocityMapChannel = - 1,
      GetNumInstanceTargets = 2,
      GetRenderInstanceTarget = (\<lambda>j. example_target (10 * i + j))\<rparr>"

definition example_instancer :: RenderTimeInstancing where
  "example_instancer = \<lparr>GetNumInstanceSources = 3, GetRenderInstanceSource = example_source\<rparr>"

definition empty_source :: RenderInstanceSource where
  "empty_source =
     \<lparr>GetFlags = df_inode, GetData = 8192, GetVelocityMapChannel = - 1,
      GetNumInstanceTargets = 0, GetRenderInstanceTarget = example_target\<rparr>"

definition empty_instancer :: RenderTimeInstancing where
  "empty_instancer = \<lparr>GetNumInstanceSources = 0, GetRenderInstanceSource = example_source\<rparr>"

subsection \<open>Double-precision arithmetic\<close>

text \<open>
  \<^verbatim>\<open>resize\<close> computes its growth as \<^verbatim>\<open>ceil(s * 1.5)\<close>: the \<^verbatim>\<open>size_t\<close> is converted to a
  \<^verbatim>\<open>double\<close>, multiplied, rounded up and converted back. A double is modelled by the real
  number it denotes, and every operation rounds its exact result to the nearest value with a
  53-bit significand, ties to the even one (IEEE 754 binary64). The values rounded here are
  0 or at least 1 and stay below \<open>2 ^ 66\<close>, so neither subnormal numbers nor overflow come
  into play.
\<close>

definition round_ties_even :: "real \<Rightarrow> int" where
  "round_ties_even q =
     (let f = \<lfloor>q\<rfloor>
      in if q - of_int f < 1 / 2 then f
         else if 1 / 2 < q - of_int f then f + 1
         else if even f then f else f + 1)"

text \<open>
  A value \<open>x \<ge> 1\<close> whose integer part has \<open>b\<close> bits is rounded to a multiple of
  \<open>2 ^ (b - 53)\<close>.
\<close>

definition to_double :: "real \<Rightarrow> real" where
  "to_double x =
     (if x < 1 then x
      else let k = bitlen \<lfloor>x\<rfloor> - 53
           in of_int (round_ties_even (x * 2 ^ nat (- k) / 2 ^ nat k)) * 2 ^ nat k / 2 ^ nat (- k))"

text \<open>The conversion of a \<^verbatim>\<open>size_t\<close> to \<^verbatim>\<open>double\<close>, the product and \<^verbatim>\<open>ceil\<close>.\<close>

definition size_t_to_double :: "size_t \<Rightarrow> real" where
  "size_t_to_double s = to_double (real (unat s))"

definition double_mul :: "real \<Rightarrow> real \<Rightarrow> real" where
  "double_mul a b = to_double (a * b)"

definition double_ceil :: "real \<Rightarrow> real" where
  "double_ceil x = of_int \<lceil>x\<rceil>"

text \<open>
  The conversion of a non-negative \<^verbatim>\<open>double\<close> to \<^verbatim>\<open>size_t\<close> truncates; it is undefined
  behaviour when the value does not fit in 64 bits (\<open>None\<close>).
\<close>

definition double_to_size_t :: "real \<Rightarrow> size_t option" where
  "double_to_size_t x = (if x < 2 ^ 64 then Some (word_of_int \<lfloor>x\<rfloor>) else None)"

subsection \<open>tyVector\<close>

text \<open>
  \<^verbatim>\<open>template<typename T> class tyVector { T* _array; size_t _size; size_t _alloc; ... }\<close>
  from \<^verbatim>\<open>tyParticleObjectExt_v2.h\<close>. The heap block behind \<^verbatim>\<open>_array\<close> is a list, and
  \<^verbatim>\<open>NULL\<close> is \<open>None\<close>. \<^verbatim>\<open>_size\<close> and \<^verbatim>\<open>_alloc\<close> are 64-bit words, the loop counters are
  \<^verbatim>\<open>int\<close>, 32 bits wide, and the index of \<^verbatim>\<open>operator[]\<close> is an \<^verbatim>\<open>unsigned int\<close>.

  An operation ends in one of three ways. It returns (\<open>Inr\<close>, with the vector it leaves). It
  throws \<^verbatim>\<open>std::bad_alloc\<close> out of \<^verbatim>\<open>new T[n]\<close> (\<open>Inl (bad_alloc v)\<close>, with the vector it
  leaves behind). Or it runs into undefined behaviour: an access outside the block, the
  overflow of an \<^verbatim>\<open>int\<close>, a \<^verbatim>\<open>double\<close> that does not fit the \<^verbatim>\<open>size_t\<close> it is converted to,
  or the use of a block that has been deleted. The elements are values: copying one does
  not throw.
\<close>

datatype undefined_behaviour = OutOfBounds | IntOverflow | ConversionOutOfRange | UseAfterFree

datatype 'v failure = Undefined undefined_behaviour | bad_alloc 'v

definition INT_MAX :: nat where
  "INT_MAX = 2 ^ 31 - 1"

record 'a tyVector =
  tv_array :: "'a list option"
  tv_size :: size_t
  tv_alloc :: size_t

text \<open>
  The free store: which requests \<^verbatim>\<open>new T[n]\<close> satisfies, and the value of the elements of a
  new block.
\<close>

record 'a heap =
  fresh :: 'a
  new_succeeds :: "nat \<Rightarrow> bool"

text \<open>
  The argument of \<^verbatim>\<open>push_back(T& v)\<close> is a reference: to an object outside the vector, or
  to the element at some index of the vector's own block.
\<close>

datatype 'a reference = External 'a | Element nat

text \<open>The block an array pointer gives access to; none through \<^verbatim>\<open>NULL\<close>.\<close>

definition block :: "'a list option \<Rightarrow> 'a list" where
  "block p = (case p of None \<Rightarrow> [] | Some a \<Rightarrow> a)"

text \<open>\<^verbatim>\<open>tyVector() : _array(NULL), _size(0), _alloc(0) {}\<close>\<close>

definition tyVector_new :: "'a tyVector" where
  "tyVector_new = \<lparr>tv_array = None, tv_size = 0, tv_alloc = 0\<rparr>"




text \<open>The assignment \<^verbatim>\<open>_array[i] = x\<close>, with a \<^verbatim>\<open>size_t\<close> index.\<close>

definition tyVector_store :: "'a tyVector \<Rightarrow> size_t \<Rightarrow> 'a \<Rightarrow> 'a tyVector failure + 'a tyVector" where
  "tyVector_store v i x =
     (if unat i < length (block (tv_array v))
      then Inr (v\<lparr>tv_array := Some ((block (tv_array v))[unat i := x])\<rparr>)
      else Inl (Undefined OutOfBounds))"

text \<open>\<^verbatim>\<open>void clear() { if (_array){delete[] _array;} _array = NULL; _size = 0, _alloc = 0; }\<close>\<close>

definition tyVector_clear :: "'a tyVector \<Rightarrow> 'a tyVector" where
  "tyVector_clear v = v\<lparr>tv_array := None, tv_size := 0, tv_alloc := 0\<rparr>"

text \<open>
  \<^verbatim>\<open>for (int h = 0; h < n; h++) { dst[h] = src[h]; }\<close>, the loop of \<^verbatim>\<open>reserve\<close> and of
  \<^verbatim>\<open>operator=\<close>. The increment of \<^verbatim>\<open>h\<close> overflows at \<^verbatim>\<open>INT_MAX\<close>.
\<close>

function copy_elems :: "nat \<Rightarrow> nat \<Rightarrow> 'a list \<Rightarrow> 'a list \<Rightarrow> undefined_behaviour + 'a list" where
  "copy_elems h n src dst =
     (if h < n
      then (if h < length src \<and> h < length dst
            then (if h < INT_MAX
                  then copy_elems (Suc h) n src (dst[h := src ! h])
                  else Inl IntOverflow)
            else Inl OutOfBounds)
      else Inr dst)"
  by pat_completeness auto
termination
  by (relation "measure (\<lambda>(h, n, src, dst). n - h)") auto

declare copy_elems.simps [simp del]

text \<open>
  \<^verbatim>\<open>void reserve(size_t s) { if (s > _alloc) { _alloc = s; auto tmp = new T[_alloc];
  if (_array) { for (int h = 0; h < _size; h++) { tmp[h] = _array[h]; } delete[] _array; }
  _array = tmp; } }\<close>. \<^verbatim>\<open>_alloc\<close> is written before \<^verbatim>\<open>new\<close> is called, so a
  \<^verbatim>\<open>std::bad_alloc\<close> leaves the new capacity with the old block.
\<close>

definition tyVector_reserve :: "'a heap \<Rightarrow> size_t \<Rightarrow> 'a tyVector \<Rightarrow> 'a tyVector failure + 'a tyVector" where
  "tyVector_reserve H s v =
     (if tv_alloc v < s
      then (if new_succeeds H (unat s)
            then (let tmp = replicate (unat s) (fresh H)
                  in case tv_array v of
                       None \<Rightarrow> Inr (v\<lparr>tv_array := Some tmp, tv_alloc := s\<rparr>)
                     | Some a \<Rightarrow>
                         (case copy_elems 0 (unat (tv_size v)) a tmp of
                            Inl e \<Rightarrow> Inl (Undefined e)
                          | Inr tmp' \<Rightarrow> Inr (v\<lparr>tv_array := Some tmp', tv_alloc := s\<rparr>)))
            else Inl (bad_alloc (v\<lparr>tv_alloc := s\<rparr>)))
      else Inr v)"

text \<open>
  \<^verbatim>\<open>s < 4 ? s : ceil(s * 1.5)\<close>, the argument that \<^verbatim>\<open>resize(s)\<close> passes to \<^verbatim>\<open>reserve\<close>. The
  conditional expression has type \<^verbatim>\<open>double\<close> in both branches and is converted to the
  \<^verbatim>\<open>size_t\<close> parameter of \<^verbatim>\<open>reserve\<close>.
\<close>

definition growth :: "size_t \<Rightarrow> size_t option" where
  "growth s =
     double_to_size_t
       (if s < 4 then size_t_to_double s
        else double_ceil (double_mul (size_t_to_double s) 1.5))"

text \<open>
  \<^verbatim>\<open>void resize(size_t s) { if (_size != s) { if (s == 0) {clear();}
  else if (s < _alloc){_size = s;}
  else { reserve(s < 4 ? s : ceil(s * 1.5)); _size = s; } } }\<close>
\<close>

definition tyVector_resize :: "'a heap \<Rightarrow> size_t \<Rightarrow> 'a tyVector \<Rightarrow> 'a tyVector failure + 'a tyVector" where
  "tyVector_resize H s v =
     (if tv_size v \<noteq> s
      then (if s = 0 then Inr (tyVector_clear v)
            else if s < tv_alloc v then Inr (v\<lparr>tv_size := s\<rparr>)
            else (case growth s of
                    None \<Rightarrow> Inl (Undefined ConversionOutOfRange)
                  | Some g \<Rightarrow>
                      (case tyVector_reserve H g v of
                         Inl e \<Rightarrow> Inl e
                       | Inr v' \<Rightarrow> Inr (v'\<lparr>tv_size := s\<rparr>))))
      else Inr v)"

text \<open>
  \<^verbatim>\<open>void push_back(T& v) { resize(_size + 1); _array[_size - 1] = v; }\<close>. When the argument
  is an element of the vector and \<^verbatim>\<open>resize\<close> has replaced the block (the capacity has
  changed), the assignment reads the deleted block.
\<close>

definition tyVector_push_back :: "'a heap \<Rightarrow> 'a reference \<Rightarrow> 'a tyVector \<Rightarrow> 'a tyVector failure + 'a tyVector" where
  "tyVector_push_back H r v =
     (case tyVector_resize H (tv_size v + 1) v of
        Inl e \<Rightarrow> Inl e
      | Inr v' \<Rightarrow>
          (case r of
             External x \<Rightarrow> tyVector_store v' (tv_size v' - 1) x
           | Element j \<Rightarrow>
               (if tv_alloc v' \<noteq> tv_alloc v then Inl (Undefined UseAfterFree)
                else if j < length (block (tv_array v'))
                then tyVector_store v' (tv_size v' - 1) (block (tv_array v') ! j)
                else Inl (Undefined OutOfBounds))))"



text \<open>
  The state of a vector that its operations have left by returning: the size is within the
  allocation, and the block has as many elements as \<^verbatim>\<open>_alloc\<close> says (none behind
  \<^verbatim>\<open>NULL\<close>).
\<close>

definition tyVector_inv :: "'a tyVector \<Rightarrow> bool" where
  "tyVector_inv v = (tv_size v \<le> tv_alloc v \<and> length (block (tv_array v)) = unat (tv_alloc v))"


text \<open>The number of elements that \<^verbatim>\<open>resize(s)\<close> asks \<^verbatim>\<open>reserve\<close> for.\<close>

definition request :: "size_t \<Rightarrow> nat" where
  "request s = (case growth s of None \<Rightarrow> 0 | Some g \<Rightarrow> unat g)"

subsection \<open>tyInstanceInfo\<close>



subsection \<open>Examples\<close>







section \<open>Theorems\<close>

subsection \<open>Custom data readers\<close>

lemma GetCustomColor_null:
  "GetCustomData this channel = nullptr \<Longrightarrow> GetCustomColor mem this channel = Color 0 0 0"
  by (simp add: GetCustomColor_def)

lemma GetCustomFloat_found:
  "GetCustomData this channel \<noteq> nullptr \<Longrightarrow>
   GetCustomFloat mem this channel = float_at mem (GetCustomData this channel)"
  by (simp add: GetCustomFloat_def)

lemma GetCustomTM_found:
  "GetCustomData this channel \<noteq> nullptr \<Longrightarrow>
   GetCustomTM Matrix3_default mem this channel = Matrix3_at mem (GetCustomData this channel)"
  by (simp add: GetCustomTM_def)



subsection \<open>DataFlags\<close>









subsection \<open>Iterators\<close>

lemma of_nat_less_size:
  assumes "k < unat (n :: size_t)"
  shows "(of_nat k :: size_t) < n"
proof -
  have "unat (of_nat k :: size_t) \<le> k"
    by (simp add: unat_of_nat)
  then have "unat (of_nat k :: size_t) < unat n"
    using assms by simp
  then show ?thesis by (simp add: word_less_nat_alt)
qed

lemma of_nat_neq_size: "k < unat (n :: size_t) \<Longrightarrow> (of_nat k :: size_t) \<noteq> n"
  using of_nat_less_size [of k n] by auto

lemma for_loop_from:
  assumes "k \<le> unat (m_i e)" and "m_i it = of_nat k"
  shows "for_loop deref body it e s =
         fold body (map (\<lambda>j. deref (it\<lparr>m_i := of_nat j\<rparr>)) [k..<unat (m_i e)]) s"
  using assms
proof (induction "unat (m_i e) - k" arbitrary: k it s)
  case 0
  then have "k = unat (m_i e)" by simp
  then have "m_i it = m_i e" using 0 by simp
  then show ?case using \<open>k = unat (m_i e)\<close>
    by (subst for_loop.simps) (simp add: Iterator_neq_def)
next
  case (Suc d)
  then have lt: "k < unat (m_i e)" by simp
  then have ne: "Iterator_neq it e"
    using Suc.prems of_nat_neq_size by (simp add: Iterator_neq_def)
  have step: "for_loop deref body (Iterator_inc it) e (body (deref it) s)
      = fold body (map (\<lambda>j. deref ((Iterator_inc it)\<lparr>m_i := of_nat j\<rparr>)) [Suc k..<unat (m_i e)]) (body (deref it) s)"
    using Suc.hyps Suc.prems lt by (intro Suc.hyps(1)) (auto simp add: Iterator_inc_def)
  have self: "it\<lparr>m_i := of_nat k\<rparr> = it" using Suc.prems by simp
  show ?case
    using ne lt step self
    by (subst for_loop.simps) (simp add: upt_conv_Cons Iterator_inc_def)
qed

lemma index_loop_from:
  assumes "k \<le> unat n"
  shows "index_loop get body (of_nat k) n s =
         fold body (map (\<lambda>j. get (of_nat j)) [k..<unat n]) s"
  using assms
proof (induction "unat n - k" arbitrary: k s)
  case 0
  then have "k = unat n" by simp
  then have "\<not> (of_nat k :: size_t) < n" by simp
  then show ?case using \<open>k = unat n\<close>
    by (subst index_loop.simps) simp
next
  case (Suc d)
  then have lt: "k < unat n" by simp
  then have l: "(of_nat k :: size_t) < n" by (rule of_nat_less_size)
  have step: "index_loop get body (of_nat (Suc k)) n (body (get (of_nat k)) s)
      = fold body (map (\<lambda>j. get (of_nat j)) [Suc k..<unat n]) (body (get (of_nat k)) s)"
    using Suc.hyps lt by (intro Suc.hyps(1)) auto
  show ?case
    using l lt step
    by (subst index_loop.simps) (simp add: upt_conv_Cons add.commute)
qed


lemma Instancing_range_for_fold:
  "Instancing_range_for body this s = fold body (sources_in_order this) s"
  using for_loop_from [of 0 "Instancing_end this" "Instancing_begin this" Instancing_deref body s]
  by (simp add: Instancing_range_for_def sources_in_order_def Instancing_begin_def
        Instancing_end_def Instancing_deref_def)

lemma Source_range_for_fold:
  "Source_range_for body this s = fold body (targets_in_order this) s"
  using for_loop_from [of 0 "Source_end this" "Source_begin this" Source_deref body s]
  by (simp add: Source_range_for_def targets_in_order_def Source_begin_def
        Source_end_def Source_deref_def)

lemma Instancing_index_loop_fold:
  "Instancing_index_loop body this s = fold body (sources_in_order this) s"
  using index_loop_from [of 0 "GetNumInstanceSources this" "GetRenderInstanceSource this" body s]
  by (simp add: Instancing_index_loop_def sources_in_order_def)

lemma Source_index_loop_fold:
  "Source_index_loop body this s = fold body (targets_in_order this) s"
  using index_loop_from [of 0 "GetNumInstanceTargets this" "GetRenderInstanceTarget this" body s]
  by (simp add: Source_index_loop_def targets_in_order_def)

lemma fold_visit: "fold visit xs seen = seen @ xs"
  by (induction xs arbitrary: seen) (simp_all add: visit_def)

text \<open>
  C6. The range-based loop over an instancer, and over a source, does what the index-based
  loop does, for every loop body and every starting state: it visits the elements at the
  indices 0, 1, ..., n - 1 in that order, n being the container's count, and stops. With a
  count of 0, \<^verbatim>\<open>begin()\<close> is not different from \<^verbatim>\<open>end()\<close> and the body never runs. A second
  loop over the same container visits the same elements again.
\<close>

theorem range_for_is_index_loop:
  "Instancing_range_for body this s = Instancing_index_loop body this s
   \<and> Source_range_for body' src s' = Source_index_loop body' src s'
   \<and> Instancing_range_for visit this [] = sources_in_order this
   \<and> Source_range_for visit src [] = targets_in_order src
   \<and> length (sources_in_order this) = unat (GetNumInstanceSources this)
   \<and> length (targets_in_order src) = unat (GetNumInstanceTargets src)
   \<and> (GetNumInstanceSources this = 0 \<longrightarrow>
        \<not> Iterator_neq (Instancing_begin this) (Instancing_end this)
        \<and> Instancing_range_for body this s = s)
   \<and> (GetNumInstanceTargets src = 0 \<longrightarrow>
        \<not> Iterator_neq (Source_begin src) (Source_end src)
        \<and> Source_range_for body' src s' = s')
   \<and> Instancing_range_for visit this (Instancing_range_for visit this [])
       = sources_in_order this @ sources_in_order this
   \<and> Source_range_for visit src (Source_range_for visit src [])
       = targets_in_order src @ targets_in_order src"
proof -
  have a: "Instancing_range_for body this s = Instancing_index_loop body this s"
    by (simp only: Instancing_range_for_fold Instancing_index_loop_fold)
  have b: "Source_range_for body' src s' = Source_index_loop body' src s'"
    by (simp only: Source_range_for_fold Source_index_loop_fold)
  have c: "Instancing_range_for visit this seen = seen @ sources_in_order this" for seen
    by (simp only: Instancing_range_for_fold fold_visit)
  have d: "Source_range_for visit src seen = seen @ targets_in_order src" for seen
    by (simp only: Source_range_for_fold fold_visit)
  have e: "length (sources_in_order this) = unat (GetNumInstanceSources this)"
    by (simp add: sources_in_order_def)
  have f: "length (targets_in_order src) = unat (GetNumInstanceTargets src)"
    by (simp add: targets_in_order_def)
  have g: "GetNumInstanceSources this = 0 \<longrightarrow>
        \<not> Iterator_neq (Instancing_begin this) (Instancing_end this)
        \<and> Instancing_range_for body this s = s"
    by (simp add: Instancing_range_for_fold sources_in_order_def Iterator_neq_def
          Instancing_begin_def Instancing_end_def)
  have h: "GetNumInstanceTargets src = 0 \<longrightarrow>
        \<not> Iterator_neq (Source_begin src) (Source_end src)
        \<and> Source_range_for body' src s' = s'"
    by (simp add: Source_range_for_fold targets_in_order_def Iterator_neq_def
          Source_begin_def Source_end_def)
  show ?thesis
    using a b c [of "[]"] d [of "[]"] e f g h c [of "sources_in_order this"] d [of "targets_in_order src"]
    by simp
qed


text \<open>An instancer of three sources with two targets each, and an empty one.\<close>

theorem range_for_is_index_loop_witness:
  "Instancing_range_for visit example_instancer []
     = [example_source 0, example_source 1, example_source 2]
   \<and> Instancing_index_loop visit example_instancer []
     = [example_source 0, example_source 1, example_source 2]
   \<and> map GetID (Source_range_for visit (example_source 2) []) = [20, 21]
   \<and> GetNumInstanceSources empty_instancer = 0
   \<and> \<not> Iterator_neq (Instancing_begin empty_instancer) (Instancing_end empty_instancer)
   \<and> Instancing_range_for visit empty_instancer [] = []
   \<and> GetNumInstanceTargets empty_source = 0
   \<and> \<not> Iterator_neq (Source_begin empty_source) (Source_end empty_source)
   \<and> Source_range_for visit empty_source [] = []"
proof -
  have so: "sources_in_order example_instancer = [example_source 0, example_source 1, example_source 2]"
    by (simp add: sources_in_order_def example_instancer_def upt_conv_Cons)
  have to: "map GetID (targets_in_order (example_source 2)) = [20, 21]"
    by (simp add: targets_in_order_def example_source_def example_target_def upt_conv_Cons)
  have n0: "GetNumInstanceSources empty_instancer = 0"
    by (simp add: empty_instancer_def)
  have m0: "GetNumInstanceTargets empty_source = 0"
    by (simp add: empty_source_def)
  note t = range_for_is_index_loop [of visit example_instancer "[]" visit "example_source 2" "[]"]
  note u = range_for_is_index_loop [of visit empty_instancer "[]" visit empty_source "[]"]
  from t have "Instancing_range_for visit example_instancer [] = sources_in_order example_instancer"
    by blast
  with so have 1: "Instancing_range_for visit example_instancer []
      = [example_source 0, example_source 1, example_source 2]" by (simp only:)
  from t have "Instancing_range_for visit example_instancer []
      = Instancing_index_loop visit example_instancer []"
    by blast
  with 1 have 2: "Instancing_index_loop visit example_instancer []
      = [example_source 0, example_source 1, example_source 2]" by (simp only:)
  from t have "Source_range_for visit (example_source 2) [] = targets_in_order (example_source 2)"
    by blast
  with to have 3: "map GetID (Source_range_for visit (example_source 2) []) = [20, 21]"
    by (simp only:)
  from u n0 have 4: "\<not> Iterator_neq (Instancing_begin empty_instancer) (Instancing_end empty_instancer)"
    and 5: "Instancing_range_for visit empty_instancer [] = []" by blast+
  from u m0 have 6: "\<not> Iterator_neq (Source_begin empty_source) (Source_end empty_source)"
    and 7: "Source_range_for visit empty_source [] = []" by blast+
  show ?thesis
    by (intro conjI 1 2 3 n0 4 5 m0 6 7)
qed

subsection \<open>tyVector\<close>

lemma round_ties_even_of_int: "round_ties_even (of_int z) = z"
  by (simp add: round_ties_even_def)

lemma to_double_exact:
  assumes "1 \<le> x" and "bitlen \<lfloor>x\<rfloor> \<le> 53" and "x * 2 ^ nat (53 - bitlen \<lfloor>x\<rfloor>) \<in> \<int>"
  shows "to_double x = x"
proof -
  define k where "k = bitlen \<lfloor>x\<rfloor> - 53"
  have k: "k \<le> 0" using assms(2) by (simp add: k_def)
  then have nk: "nat k = 0" by simp
  have "nat (- k) = nat (53 - bitlen \<lfloor>x\<rfloor>)" by (simp add: k_def)
  with assms(3) obtain z where z: "x * 2 ^ nat (- k) = of_int z"
    by (auto elim: Ints_cases)
  have "to_double x = of_int (round_ties_even (x * 2 ^ nat (- k) / 2 ^ nat k)) * 2 ^ nat k / 2 ^ nat (- k)"
    using assms(1) by (simp add: to_double_def k_def Let_def)
  also have "\<dots> = of_int z / 2 ^ nat (- k)"
    by (simp add: nk z round_ties_even_of_int)
  also have "\<dots> = x"
    using z by (simp add: field_simps)
  finally show ?thesis .
qed

lemma to_double_nat:
  assumes "n < 2 ^ 53"
  shows "to_double (real n) = real n"
proof (cases "n = 0")
  case True
  then show ?thesis by (simp add: to_double_def)
next
  case False
  have fl: "\<lfloor>real n\<rfloor> = int n" by simp
  have "int n < 2 ^ 53" using assms by (metis of_nat_less_iff of_nat_numeral of_nat_power)
  then have b: "bitlen (int n) \<le> 53"
    by (simp add: bitlen_le_iff_power)
  have "real n * 2 ^ nat (53 - bitlen (int n)) = of_int (int n * 2 ^ nat (53 - bitlen (int n)))"
    by simp
  then have i: "real n * 2 ^ nat (53 - bitlen (int n)) \<in> \<int>"
    by (metis Ints_of_int)
  show ?thesis
    using False b i by (intro to_double_exact) (simp_all add: fl)
qed




lemma copy_elems_ok:
  "h \<le> n \<Longrightarrow> n \<le> length src \<Longrightarrow> n \<le> length dst \<Longrightarrow> n \<le> INT_MAX \<Longrightarrow>
   copy_elems h n src dst = Inr (take h dst @ take (n - h) (drop h src) @ drop n dst)"
proof (induction "n - h" arbitrary: h dst)
  case 0
  then show ?case by (subst copy_elems.simps) simp
next
  case (Suc k)
  then have lt: "h < n" by simp
  have ih: "copy_elems (Suc h) n src (dst[h := src ! h]) =
      Inr (take (Suc h) (dst[h := src ! h]) @ take (n - Suc h) (drop (Suc h) src) @ drop n (dst[h := src ! h]))"
    using Suc.hyps(2) Suc.prems lt by (intro Suc.hyps(1)) simp_all
  have a: "take (Suc h) (dst[h := src ! h]) = take h dst @ [src ! h]"
    using lt Suc.prems by (simp add: take_Suc_conv_app_nth)
  have b: "take (n - h) (drop h src) = src ! h # take (n - Suc h) (drop (Suc h) src)"
    using lt Suc.prems by (metis Cons_nth_drop_Suc Suc_diff_Suc order_less_le_trans take_Suc_Cons)
  have c: "drop n (dst[h := src ! h]) = drop n dst"
    using lt by simp
  show ?case
    using lt Suc.prems ih a b c by (subst copy_elems.simps) simp
qed


lemma copy_elems_overflow:
  "h \<le> INT_MAX \<Longrightarrow> INT_MAX < n \<Longrightarrow> n \<le> length src \<Longrightarrow> n \<le> length dst \<Longrightarrow>
   copy_elems h n src dst = Inl IntOverflow"
proof (induction "INT_MAX - h" arbitrary: h dst)
  case 0
  then have "h = INT_MAX" by simp
  then show ?case
    using 0 by (subst copy_elems.simps) simp
next
  case (Suc k)
  then have lt: "h < INT_MAX" by simp
  have "copy_elems (Suc h) n src (dst[h := src ! h]) = Inl IntOverflow"
    using Suc.hyps(2) Suc.prems lt by (intro Suc.hyps(1)) simp_all
  then show ?case
    using lt Suc.prems by (subst copy_elems.simps) simp
qed

lemma reserve_grow:
  assumes "tyVector_inv v" and "tv_alloc v < s" and "unat (tv_size v) \<le> INT_MAX"
    and "new_succeeds H (unat s)"
  shows "tyVector_reserve H s v =
           Inr (v\<lparr>tv_array := Some (take (unat (tv_size v)) (block (tv_array v))
                                      @ replicate (unat s - unat (tv_size v)) (fresh H)),
                    tv_alloc := s\<rparr>)"
proof -
  have le: "unat (tv_size v) \<le> unat (tv_alloc v)" and lt: "unat (tv_alloc v) < unat s"
    using assms(1,2) by (simp_all add: tyVector_inv_def word_le_nat_alt word_less_nat_alt)
  show ?thesis
  proof (cases "tv_array v")
    case None
    then have "unat (tv_size v) = 0"
      using assms(1) le by (simp add: tyVector_inv_def block_def)
    then show ?thesis
      using None assms(2,4) by (simp add: tyVector_reserve_def block_def)
  next
    case (Some a)
    then have len: "length a = unat (tv_alloc v)"
      using assms(1) by (simp add: tyVector_inv_def block_def)
    have "copy_elems 0 (unat (tv_size v)) a (replicate (unat s) (fresh H)) =
            Inr (take (unat (tv_size v)) a @ replicate (unat s - unat (tv_size v)) (fresh H))"
      using copy_elems_ok [of 0 "unat (tv_size v)" a "replicate (unat s) (fresh H)"] len le lt assms(3)
      by simp
    then show ?thesis
      using Some assms(2,4) by (simp add: tyVector_reserve_def block_def)
  qed
qed



lemma reserve_overflow:
  assumes "tyVector_inv v" and "INT_MAX < unat (tv_size v)" and "tv_alloc v < s"
    and "new_succeeds H (unat s)"
  shows "tyVector_reserve H s v = Inl (Undefined IntOverflow)"
proof -
  have le: "unat (tv_size v) \<le> unat (tv_alloc v)" and lt: "unat (tv_alloc v) < unat s"
    using assms(1,3) by (simp_all add: tyVector_inv_def word_le_nat_alt word_less_nat_alt)
  show ?thesis
  proof (cases "tv_array v")
    case None
    then show ?thesis
      using assms(1,2) le by (simp add: tyVector_inv_def block_def)
  next
    case (Some a)
    then have "copy_elems 0 (unat (tv_size v)) a (replicate (unat s) (fresh H))
        = Inl IntOverflow"
      using assms le lt by (intro copy_elems_overflow) (simp_all add: tyVector_inv_def block_def)
    then show ?thesis
      using Some assms by (simp add: tyVector_reserve_def)
  qed
qed

lemma block_simps [simp]: "block None = []" "block (Some a) = a"
  by (simp_all add: block_def)

lemma double_to_size_t_nat:
  assumes "n < 2 ^ 64"
  shows "double_to_size_t (real n) = Some (of_nat n)"
proof -
  have "real n < 2 ^ 64"
    using assms by (metis of_nat_less_iff of_nat_numeral of_nat_power)
  moreover have "(word_of_int \<lfloor>real n\<rfloor> :: size_t) = of_nat n"
    by simp
  ultimately show ?thesis
    by (simp only: double_to_size_t_def if_True)
qed

lemma round_ties_even_err: "\<bar>of_int (round_ties_even q) - q\<bar> \<le> 1 / 2"
proof -
  have "of_int \<lfloor>q\<rfloor> \<le> q" "q < of_int \<lfloor>q\<rfloor> + 1" by linarith+
  then show ?thesis
    by (auto simp add: round_ties_even_def Let_def)
qed

lemma to_double_err:
  assumes "1 \<le> x"
  shows "\<bar>to_double x - x\<bar> \<le> x / 2 ^ 53"
proof -
  define b where "b = bitlen \<lfloor>x\<rfloor>"
  define k where "k = b - 53"
  define p :: real where "p = 2 ^ nat k / 2 ^ nat (- k)"
  have fl: "0 < \<lfloor>x\<rfloor>" using assms by simp
  have lo: "2 ^ nat (b - 1) \<le> \<lfloor>x\<rfloor>"
    using bitlen_bounds [OF fl] by (simp add: b_def)
  have "b \<noteq> 0" using fl by (simp add: b_def bitlen_eq_zero_iff)
  moreover have "0 \<le> b" by (simp add: b_def bitlen_nonneg)
  ultimately have bpos: "1 \<le> b" by simp
  have p0: "0 < p" by (simp add: p_def)
  have td: "to_double x = of_int (round_ties_even (x / p)) * p"
    using assms by (simp add: to_double_def Let_def k_def b_def p_def field_simps)
  have "\<bar>of_int (round_ties_even (x / p)) - x / p\<bar> \<le> 1 / 2"
    by (rule round_ties_even_err)
  then have "\<bar>of_int (round_ties_even (x / p)) - x / p\<bar> * p \<le> 1 / 2 * p"
    using p0 by (intro mult_right_mono) simp_all
  moreover have "to_double x - x = (of_int (round_ties_even (x / p)) - x / p) * p"
    using p0 by (simp add: td left_diff_distrib)
  then have "\<bar>to_double x - x\<bar> = \<bar>of_int (round_ties_even (x / p)) - x / p\<bar> * p"
    using p0 by (simp only: abs_mult abs_of_pos)
  ultimately have e: "\<bar>to_double x - x\<bar> \<le> p / 2"
    by simp
  have pp: "p * 2 ^ 52 = 2 ^ nat (b - 1)"
  proof (cases "0 \<le> k")
    case True
    then have "nat (b - 1) = nat k + 52" by (simp add: k_def nat_add_distrib)
    then show ?thesis using True by (simp add: p_def power_add)
  next
    case False
    then have "52 = nat (b - 1) + nat (- k)" using bpos by (simp add: k_def)
    then have q: "(2::real) ^ 52 = 2 ^ nat (b - 1) * 2 ^ nat (- k)" by (simp only: power_add)
    have "nat k = 0" using False by simp
    then have "p * 2 ^ 52 = 2 ^ 52 / 2 ^ nat (- k)" by (simp add: p_def)
    also have "\<dots> = 2 ^ nat (b - 1)" by (simp only: q) simp
    finally show ?thesis .
  qed
  have "real_of_int (2 ^ nat (b - 1)) \<le> real_of_int \<lfloor>x\<rfloor>"
    using lo by (simp only: of_int_le_iff)
  also have "\<dots> \<le> x" by simp
  finally have "(2::real) ^ nat (b - 1) \<le> x" by simp
  then have "p * 2 ^ 52 \<le> x" by (simp only: pp)
  then have "p / 2 \<le> x / 2 ^ 53" by simp
  with e show ?thesis by linarith
qed

lemma to_double_bounds:
  assumes "1 \<le> x"
  shows "x * 7 / 8 \<le> to_double x" and "to_double x \<le> x * 9 / 8"
proof -
  have "x / 2 ^ 53 \<le> x / 8" using assms by simp
  with to_double_err [OF assms] have "\<bar>to_double x - x\<bar> \<le> x / 8" by linarith
  then show "x * 7 / 8 \<le> to_double x" and "to_double x \<le> x * 9 / 8" by linarith+
qed

lemma growth_small:
  assumes "s < 4"
  shows "growth s = Some s"
proof -
  have u: "unat s < 4" using assms by (simp add: word_less_nat_alt)
  then have a: "size_t_to_double s = real (unat s)"
    unfolding size_t_to_double_def by (intro to_double_nat) simp
  have b: "double_to_size_t (real (unat s)) = Some (of_nat (unat s))"
    using u by (intro double_to_size_t_nat) simp
  show ?thesis
    using assms by (simp only: growth_def if_True a b) simp
qed

lemma growth_large:
  fixes s :: size_t
  assumes "4 \<le> unat s" and "unat s \<le> 2 ^ 63"
  shows "\<exists>g. growth s = Some g \<and> s \<le> g"
proof -
  define n where "n = real (unat s)"
  define a where "a = size_t_to_double s"
  define b where "b = double_mul a (3 / 2)"
  define c where "c = \<lceil>b\<rceil>"
  have "real 4 \<le> real (unat s)" using assms(1) by (simp only: of_nat_le_iff)
  then have n4: "4 \<le> n" unfolding n_def by simp
  have "real (unat s) \<le> real (2 ^ 63)" using assms(2) by (simp only: of_nat_le_iff)
  then have n63: "n \<le> 2 ^ 63" by (simp add: n_def)
  have a1: "n * 7 / 8 \<le> a" and a2: "a \<le> n * 9 / 8"
    unfolding a_def size_t_to_double_def n_def [symmetric]
    using n4 by (intro to_double_bounds; simp)+
  have x1: "1 \<le> a * (3 / 2)" using a1 n4 by simp
  have b1: "a * (3 / 2) * 7 / 8 \<le> b" and b2: "b \<le> a * (3 / 2) * 9 / 8"
    unfolding b_def double_mul_def using x1 by (intro to_double_bounds; simp)+
  have bn: "n \<le> b" using a1 b1 n4 by simp
  have bu: "b \<le> 2 ^ 64 - 2" using a2 b2 n63 by simp
  have c1: "b \<le> of_int c" and c2: "of_int c < b + 1"
    unfolding c_def by linarith+
  have cn: "n \<le> of_int c" using bn c1 by simp
  have cu: "real_of_int c < 2 ^ 64" using bu c2 by simp
  have "real_of_int (int (unat s)) \<le> real_of_int c" using cn by (simp add: n_def)
  then have ci: "int (unat s) \<le> c" by (simp only: of_int_le_iff)
  have "real_of_int c < real_of_int (2 ^ 64)" using cu by simp
  then have cj: "c < 2 ^ 64" by (simp only: of_int_less_iff)
  have "0 \<le> int (unat s)" by (rule of_nat_0_le_iff)
  with ci have c0: "0 \<le> c" by linarith
  have ns: "\<not> s < 4" using assms(1) by (simp add: word_less_nat_alt)
  have g: "growth s = Some (word_of_int c)"
    using ns cu by (simp add: growth_def double_ceil_def double_to_size_t_def
        a_def [symmetric] b_def [symmetric] c_def [symmetric])
  have "unat (word_of_int c :: size_t) = nat c"
    using c0 cj by (simp add: unat_eq_nat_uint uint_word_of_int)
  moreover have "unat s \<le> nat c"
    using ci by linarith
  ultimately have "s \<le> word_of_int c"
    by (simp only: word_le_nat_alt)
  with g show ?thesis by blast
qed

lemma growth_defined:
  assumes "unat s \<le> 2 ^ 63"
  shows "\<exists>g. growth s = Some g \<and> s \<le> g"
proof (cases "s < 4")
  case True
  then show ?thesis by (simp add: growth_small)
next
  case False
  then have "4 \<le> unat s" by (simp add: word_less_nat_alt)
  then show ?thesis using assms by (rule growth_large)
qed


lemma request_growth: "growth s = Some g \<Longrightarrow> request s = unat g"
  by (simp add: request_def)






lemma resize_full:
  assumes "tv_size v \<noteq> s" and "s \<noteq> 0" and "\<not> s < tv_alloc v" and "growth s = Some g"
  shows "tyVector_resize H s v =
           (case tyVector_reserve H g v of
              Inl e \<Rightarrow> Inl e
            | Inr v' \<Rightarrow> Inr (v'\<lparr>tv_size := s\<rparr>))"
  using assms by (simp add: tyVector_resize_def)








lemma unat_succ_small:
  fixes a :: size_t
  assumes "unat a \<le> INT_MAX"
  shows "unat (a + 1) = unat a + 1"
proof -
  have "unat a + 1 < 2 ^ 64"
    using assms by (simp add: INT_MAX_def)
  then show ?thesis
    by (simp add: unat_word_ariths)
qed

lemma small_size: "n \<le> INT_MAX + 1 \<Longrightarrow> n \<le> 2 ^ 63"
  by (simp add: INT_MAX_def)


lemma push_back_own_element:
  assumes "tyVector_inv v" and "unat (tv_size v) \<le> INT_MAX" and "tv_size v = tv_alloc v"
    and "new_succeeds H (request (tv_size v + 1))"
  shows "tyVector_push_back H (Element j) v = Inl (Undefined UseAfterFree)"
proof -
  let ?s = "tv_size v + 1"
  have u: "unat ?s = unat (tv_size v) + 1"
    using assms(2) by (rule unat_succ_small)
  then have ex: "unat ?s \<le> 2 ^ 63"
    using assms(2) by (intro small_size) simp
  have ne: "tv_size v \<noteq> ?s" "?s \<noteq> 0"
    using u by (auto simp add: unat_eq_0 [symmetric] simp del: unat_eq_0)
  have nl: "\<not> ?s < tv_alloc v"
    using u assms(3) by (simp add: word_less_nat_alt)
  from growth_defined [OF ex] obtain g where gr: "growth ?s = Some g" and sg: "?s \<le> g"
    by blast
  have ug: "unat g = request ?s"
    using gr by (simp add: request_growth)
  have lt: "tv_alloc v < g"
    using sg u assms(3) by (simp add: word_less_nat_alt word_le_nat_alt)
  have ns: "new_succeeds H (unat g)"
    using assms(4) ug by simp
  have "tyVector_resize H ?s v =
      (case tyVector_reserve H g v of Inl e \<Rightarrow> Inl e | Inr v' \<Rightarrow> Inr (v'\<lparr>tv_size := ?s\<rparr>))"
    using ne nl gr by (rule resize_full)
  moreover have "g \<noteq> tv_alloc v"
    using lt by auto
  ultimately show ?thesis
    by (simp add: reserve_grow [OF assms(1) lt assms(2) ns] tyVector_push_back_def)
qed





lemma bitlen_eqI:
  assumes "2 ^ n \<le> z" and "z < 2 ^ Suc n"
  shows "bitlen z = int (Suc n)"
proof -
  have "bitlen z \<le> int (Suc n)"
    unfolding bitlen_le_iff_power using assms(2) by (simp only: nat_int of_nat_0_le_iff simp_thms)
  moreover have "int (Suc n) \<le> bitlen z"
    unfolding bitlen_ge_iff_power using assms(1) by (simp only: nat_int diff_Suc_1 simp_thms)
  ultimately show ?thesis by simp
qed

lemma double_of_2_52_half: "to_double (9007199254740993 / 2) = 4503599627370496"
proof -
  have fl: "\<lfloor>9007199254740993 / 2 :: real\<rfloor> = 4503599627370496"
    by (simp add: floor_eq_iff)
  have bl: "bitlen 4503599627370496 = 53"
    using bitlen_eqI [of 52 4503599627370496] by simp
  show ?thesis
    by (simp add: to_double_def fl bl round_ties_even_def)
qed

lemma grow_inexact:
  "double_to_size_t (double_ceil (double_mul (size_t_to_double 3002399751580331) 1.5))
     = Some 4503599627370496"
proof -
  have a: "size_t_to_double 3002399751580331 = real 3002399751580331"
    unfolding size_t_to_double_def using to_double_nat [of 3002399751580331] by simp
  have b: "real 3002399751580331 * 1.5 = 9007199254740993 / 2"
    by simp
  have c: "double_ceil 4503599627370496 = 4503599627370496"
    by (simp add: double_ceil_def)
  have d: "double_to_size_t 4503599627370496 = Some 4503599627370496"
    by (simp add: double_to_size_t_def)
  show ?thesis
    by (simp only: a double_mul_def b double_of_2_52_half c d)
qed

lemma double_of_SIZE_MAX: "to_double 18446744073709551615 = 18446744073709551616"
proof -
  have fl: "\<lfloor>18446744073709551615 :: real\<rfloor> = 18446744073709551615"
    by (simp add: floor_eq_iff)
  have bl: "bitlen 18446744073709551615 = 64"
    using bitlen_eqI [of 63 18446744073709551615] by simp
  have f2: "\<lfloor>18446744073709551615 / 2048 :: real\<rfloor> = 9007199254740991"
    by (simp add: floor_eq_iff)
  show ?thesis
    by (simp add: to_double_def fl bl round_ties_even_def f2)
qed

lemma double_of_3_2_63: "to_double 27670116110564327424 = 27670116110564327424"
proof -
  have fl: "\<lfloor>27670116110564327424 :: real\<rfloor> = 27670116110564327424"
    by (simp add: floor_eq_iff)
  have bl: "bitlen 27670116110564327424 = 65"
    using bitlen_eqI [of 64 27670116110564327424] by simp
  have f2: "\<lfloor>27670116110564327424 / 4096 :: real\<rfloor> = 6755399441055744"
    by (simp add: floor_eq_iff)
  show ?thesis
    by (simp add: to_double_def fl bl round_ties_even_def f2)
qed

lemma growth_SIZE_MAX: "growth 18446744073709551615 = None"
proof -
  have u: "unat (18446744073709551615 :: size_t) = 18446744073709551615"
    by simp
  have a: "size_t_to_double 18446744073709551615 = 18446744073709551616"
    unfolding size_t_to_double_def u using double_of_SIZE_MAX by (simp only: of_nat_numeral)
  have b: "double_mul 18446744073709551616 1.5 = 27670116110564327424"
    unfolding double_mul_def using double_of_3_2_63 by simp
  have c: "double_ceil 27670116110564327424 = 27670116110564327424"
    by (simp add: double_ceil_def)
  have d: "double_to_size_t 27670116110564327424 = None"
    by (simp add: double_to_size_t_def)
  have f: "\<not> (18446744073709551615 :: size_t) < 4"
    by (simp add: word_less_nat_alt)
  show ?thesis
    using f by (simp only: growth_def a b c d if_False)
qed

lemma resize_SIZE_MAX:
  assumes "tv_size v \<noteq> 18446744073709551615"
  shows "tyVector_resize H 18446744073709551615 v = Inl (Undefined ConversionOutOfRange)"
proof -
  have "unat (tv_alloc v) < 2 ^ 64"
    using unsigned_less [of "tv_alloc v"] by simp
  then have e: "\<not> (18446744073709551615 :: size_t) < tv_alloc v"
    by (simp add: word_less_nat_alt)
  have f: "(18446744073709551615 :: size_t) \<noteq> 0"
    by simp
  show ?thesis
    using assms e f by (simp add: tyVector_resize_def growth_SIZE_MAX)
qed

lemma resize_rounds_down:
  "tyVector_resize H 3002399751580331 tyVector_new =
     (if new_succeeds H 4503599627370496
      then Inr \<lparr>tv_array = Some (replicate 4503599627370496 (fresh H)),
                tv_size = 3002399751580331, tv_alloc = 4503599627370496\<rparr>
      else Inl (bad_alloc \<lparr>tv_array = None, tv_size = 0, tv_alloc = 4503599627370496\<rparr>))"
proof -
  have a: "\<not> (3002399751580331 :: size_t) < 4" "(3002399751580331 :: size_t) \<noteq> 0"
    "(0 :: size_t) \<noteq> 3002399751580331" "\<not> (3002399751580331 :: size_t) < 0"
    by (simp_all add: word_less_nat_alt)
  have g: "growth 3002399751580331 = Some 4503599627370496"
    using a(1) grow_inexact by (simp only: growth_def if_False)
  show ?thesis
    using a by (simp add: tyVector_resize_def g tyVector_new_def tyVector_reserve_def)
qed




end
